theory Spec2Isabelle
  imports Main "HOL-Library.Word"
begin

unbundle bit_operations_syntax

section \<open>The Gravis patch reader of patreader/__init__.py\<close>

text \<open>
  The module has one function, \<open>read(path)\<close>, over a binary file. The model takes the
  file's contents as a list of bytes; Python's unbounded integers are \<open>int\<close>. What the
  model leaves out: opening and closing the file (a missing path raises before any byte
  is read), the dictionary of decoded fields that the loop prints for every sample, and
  the memory limit of the machine.
\<close>

subsection \<open>Data model\<close>

type_synonym byte = "8 word"

datatype Error = OK | BAD_HEADER | TOO_MANY_INSTRUMENTS | TOO_MANY_LAYERS

text \<open>The flags of \<open>class Mode(IntFlag)\<close>, as the integers they are.\<close>

definition SIXTEEN_BIT :: int where "SIXTEEN_BIT = 1"
definition UNSIGNED :: int where "UNSIGNED = push_bit 1 1"
definition LOOPING :: int where "LOOPING = push_bit 2 1"
definition PINGPONG :: int where "PINGPONG = push_bit 3 1"
definition REVERSE :: int where "REVERSE = push_bit 4 1"
definition SUSTAIN :: int where "SUSTAIN = push_bit 5 1"
definition ENVELOPE :: int where "ENVELOPE = push_bit 6 1"
definition CLAMPED :: int where "CLAMPED = push_bit 7 1"

text \<open>
  \<open>Mode(v)\<close> on the value of one byte: every bit of a byte is a declared flag, so the
  constructor accepts all of them and keeps the value.
\<close>

definition Mode :: "int \<Rightarrow> int" where
  "Mode v = v"

record Audio =
  pcm_data :: "byte list"
  sample_width_in_bytes :: int

record Result =
  error :: Error
  error_msg :: string
  samples :: "Audio list"

text \<open>The one exception that the body of \<open>read\<close> can raise: \<open>struct.error\<close>.\<close>

datatype exc = StructError

subsection \<open>The file object\<close>

text \<open>
  A binary file opened for reading: its bytes and the cursor. \<open>f.read(n)\<close> returns the
  bytes from the cursor on, at most \<open>n\<close> of them and fewer (or none) at the end of the
  file, and moves the cursor by what it returned. Seeking past the end is allowed.
\<close>

record reader =
  buf :: "byte list"
  pos :: nat

definition f_read :: "nat \<Rightarrow> reader \<Rightarrow> byte list \<times> reader" where
  "f_read n f = (let bs = take n (drop (pos f) (buf f)) in (bs, f\<lparr>pos := pos f + length bs\<rparr>))"

definition seek_set :: "nat \<Rightarrow> reader \<Rightarrow> reader" where
  "seek_set off f = f\<lparr>pos := off\<rparr>"

definition seek_cur :: "nat \<Rightarrow> reader \<Rightarrow> reader" where
  "seek_cur n f = f\<lparr>pos := pos f + n\<rparr>"

text \<open>\<open>int.from_bytes(bs, 'little')\<close>; the empty byte string gives 0.\<close>

primrec from_bytes_little :: "byte list \<Rightarrow> int" where
  "from_bytes_little [] = 0"
| "from_bytes_little (b # bs) = uint b + 256 * from_bytes_little bs"

text \<open>\<open>int.from_bytes(f.read(n), 'little')\<close>.\<close>

definition read_int :: "nat \<Rightarrow> reader \<Rightarrow> int \<times> reader" where
  "read_int n f = (let (bs, f') = f_read n f in (from_bytes_little bs, f'))"

subsection \<open>The struct module\<close>

text \<open>
  \<open>struct.iter_unpack\<close> with a two-byte format raises \<open>struct.error\<close> when the length
  of the buffer is not a multiple of 2, before it yields anything.
\<close>

fun words_H :: "byte list \<Rightarrow> int list" where
  "words_H (lo # hi # bs) = (uint lo + 256 * uint hi) # words_H bs"
| "words_H _ = []"

definition to_signed16 :: "int \<Rightarrow> int" where
  "to_signed16 u = (if u \<ge> 32768 then u - 65536 else u)"

fun words_h :: "byte list \<Rightarrow> int list" where
  "words_h (lo # hi # bs) = to_signed16 (uint lo + 256 * uint hi) # words_h bs"
| "words_h _ = []"

definition iter_unpack_H :: "byte list \<Rightarrow> exc + int list" where
  "iter_unpack_H data = (if length data mod 2 \<noteq> 0 then Inl StructError else Inr (words_H data))"

definition iter_unpack_h :: "byte list \<Rightarrow> exc + int list" where
  "iter_unpack_h data = (if length data mod 2 \<noteq> 0 then Inl StructError else Inr (words_h data))"

text \<open>
  The two bytes that the format \<open>'<h'\<close> packs a signed 16-bit value into: its two's
  complement, low byte first.
\<close>

definition pack_h :: "int \<Rightarrow> byte list" where
  "pack_h v = [word_of_int v, word_of_int (v div 256)]"

text \<open>
  \<open>struct.pack_into('<h', buf, ii, v)\<close>: \<open>struct.error\<close> when \<open>v\<close> is not a signed
  16-bit value or when the two bytes do not fit in \<open>buf\<close> at \<open>ii\<close>; otherwise \<open>buf\<close>
  with the two packed bytes written at \<open>ii\<close>.
\<close>

definition pack_into_h :: "byte list \<Rightarrow> nat \<Rightarrow> int \<Rightarrow> exc + byte list" where
  "pack_into_h b ii v =
     (if v < - 32768 \<or> 32767 < v then Inl StructError
      else if length b < ii + 2 then Inl StructError
      else Inr (take ii b @ pack_h v @ drop (ii + 2) b))"

text \<open>\<open>bytearray(n)\<close>: \<open>n\<close> zero bytes.\<close>

definition bytearray :: "int \<Rightarrow> byte list" where
  "bytearray n = replicate (nat n) 0"

subsection \<open>The PCM step of a sample (lines 112 to 131)\<close>

text \<open>The two \<open>for word in struct.iter_unpack(...)\<close> loops, over the words yielded.\<close>

fun unsigned_loop :: "int list \<Rightarrow> nat \<Rightarrow> byte list \<Rightarrow> exc + byte list" where
  "unsigned_loop [] ii b = Inr b"
| "unsigned_loop (word # ws) ii b =
     (let short = word - 0x8000 in
      case pack_into_h b ii short of
        Inl e \<Rightarrow> Inl e
      | Inr b' \<Rightarrow> unsigned_loop ws (ii + 2) b')"

fun signed_loop :: "int list \<Rightarrow> nat \<Rightarrow> byte list \<Rightarrow> exc + byte list" where
  "signed_loop [] ii b = Inr b"
| "signed_loop (word # ws) ii b =
     (case pack_into_h b ii word of
        Inl e \<Rightarrow> Inl e
      | Inr b' \<Rightarrow> signed_loop ws (ii + 2) b')"

text \<open>
  From \<open>modes\<close>, \<open>data_length\<close> and the payload that \<open>f.read(data_length)\<close> returned to
  the pair of \<open>data\<close> and \<open>sample_width_in_bytes\<close> that the sample is built from.
\<close>

definition pcm_step :: "int \<Rightarrow> int \<Rightarrow> byte list \<Rightarrow> exc + (byte list \<times> int)" where
  "pcm_step modes data_length data =
     (if modes AND SIXTEEN_BIT \<noteq> 0 then
        let b = bytearray data_length in
        if modes AND UNSIGNED \<noteq> 0 then
          (if modes AND UNSIGNED \<noteq> 0 then
             case iter_unpack_H data of
               Inl e \<Rightarrow> Inl e
             | Inr ws \<Rightarrow>
                 (case unsigned_loop ws 0 b of
                    Inl e \<Rightarrow> Inl e
                  | Inr b' \<Rightarrow> Inr (b', 2))
           else Inr (b, 2))
        else
          (case iter_unpack_h data of
             Inl e \<Rightarrow> Inl e
           | Inr ws \<Rightarrow>
               (case signed_loop ws 0 b of
                  Inl e \<Rightarrow> Inl e
                | Inr b' \<Rightarrow> Inr (b', 2)))
      else Inr (data, 1))"

subsection \<open>One sample record (the body of the loop)\<close>

record sample_info =
  fractions :: int
  data_length :: int
  loop_start :: int
  loop_end :: int
  sample_rate :: int
  low_freq :: int
  high_freq :: int
  root_freq :: int
  stereo_balance :: int
  tremolo_sweep :: int
  tremolo_rate :: int
  tremolo_depth :: int
  vibrato_sweep :: int
  vibrato_rate :: int
  vibrato_depth :: int
  modes :: int
  scale_freq :: int
  scale_factor :: int

text \<open>Lines 77 to 109: the fields of the record, up to the payload.\<close>

definition read_sample_header :: "reader \<Rightarrow> sample_info \<times> reader" where
  "read_sample_header f0 =
     (let f = seek_cur 7 f0;
          (fractions, f) = read_int 1 f;
          (data_length, f) = read_int 4 f;
          (loop_start, f) = read_int 4 f;
          (loop_end, f) = read_int 4 f;
          (sample_rate, f) = read_int 2 f;
          (low_freq, f) = read_int 4 f;
          (high_freq, f) = read_int 4 f;
          (root_freq, f) = read_int 4 f;
          f = seek_cur 2 f;
          (stereo_balance, f) = read_int 1 f;
          f = seek_cur 12 f;
          (tremolo_sweep, f) = read_int 1 f;
          (tremolo_rate, f) = read_int 1 f;
          (tremolo_depth, f) = read_int 1 f;
          (vibrato_sweep, f) = read_int 1 f;
          (vibrato_rate, f) = read_int 1 f;
          (vibrato_depth, f) = read_int 1 f;
          (m, f) = read_int 1 f;
          modes = Mode m;
          (scale_freq, f) = read_int 2 f;
          (scale_factor, f) = read_int 2 f;
          f = seek_cur 36 f
      in (\<lparr>fractions = fractions, data_length = data_length, loop_start = loop_start,
           loop_end = loop_end, sample_rate = sample_rate, low_freq = low_freq,
           high_freq = high_freq, root_freq = root_freq, stereo_balance = stereo_balance,
           tremolo_sweep = tremolo_sweep, tremolo_rate = tremolo_rate,
           tremolo_depth = tremolo_depth, vibrato_sweep = vibrato_sweep,
           vibrato_rate = vibrato_rate, vibrato_depth = vibrato_depth, modes = modes,
           scale_freq = scale_freq, scale_factor = scale_factor\<rparr>, f))"

text \<open>Lines 77 to 133: one pass of the loop, from the cursor to the sample appended.\<close>

definition read_sample :: "reader \<Rightarrow> exc + (Audio \<times> reader)" where
  "read_sample f0 =
     (let (h, f) = read_sample_header f0;
          (data, f) = f_read (nat (data_length h)) f
      in case pcm_step (modes h) (data_length h) data of
           Inl e \<Rightarrow> Inl e
         | Inr (data', w) \<Rightarrow> Inr (\<lparr>pcm_data = data', sample_width_in_bytes = w\<rparr>, f))"

text \<open>
  \<open>for _ in range(num_samples)\<close>: the state of the loop is \<open>result.samples\<close> and the
  file object; an exception in one pass ends the loop and the call.
\<close>

fun read_samples :: "nat \<Rightarrow> reader \<Rightarrow> Audio list \<Rightarrow> exc + (Audio list \<times> reader)" where
  "read_samples 0 f ss = Inr (ss, f)"
| "read_samples (Suc n) f ss =
     (case read_sample f of
        Inl e \<Rightarrow> Inl e
      | Inr (a, f') \<Rightarrow> read_samples n f' (ss @ [a]))"

subsection \<open>The header and \<open>read\<close>\<close>

text \<open>\<open>str\<close> of an integer, for the two formatted messages.\<close>

fun str_nat :: "nat \<Rightarrow> string" where
  "str_nat n =
     (if n < 10 then [char_of (48 + n)]
      else str_nat (n div 10) @ [char_of (48 + n mod 10)])"

declare str_nat.simps [simp del]

definition str_int :: "int \<Rightarrow> string" where
  "str_int i = (if i < 0 then CHR ''-'' # str_nat (nat (- i)) else str_nat (nat i))"

text \<open>The bytes of \<open>b'GF1PATCH110'\<close> and \<open>b'GF1PATCH100'\<close>.\<close>

definition magic110 :: "byte list" where
  "magic110 = [0x47, 0x46, 0x31, 0x50, 0x41, 0x54, 0x43, 0x48, 0x31, 0x31, 0x30]"

definition magic100 :: "byte list" where
  "magic100 = [0x47, 0x46, 0x31, 0x50, 0x41, 0x54, 0x43, 0x48, 0x31, 0x30, 0x30]"

text \<open>\<open>n += n == 0\<close>: the comparison is a bool, added as 0 or 1.\<close>

definition zero_correct :: "int \<Rightarrow> int" where
  "zero_correct n = n + of_bool (n = 0)"

text \<open>The count read at an absolute offset: \<open>f.seek(off, io.SEEK_SET)\<close>, then one byte.\<close>

definition read_count :: "nat \<Rightarrow> reader \<Rightarrow> int \<times> reader" where
  "read_count off f = read_int 1 (seek_set off f)"

definition read :: "byte list \<Rightarrow> exc + Result" where
  "read file =
     (let result = \<lparr>error = OK, error_msg = [], samples = []\<rparr>;
          f = \<lparr>buf = file, pos = 0\<rparr>;
          (ident, f) = f_read 11 f
      in if ident \<noteq> magic110 \<and> ident \<noteq> magic100 then
           Inr (result\<lparr>error := BAD_HEADER, error_msg := ''Invalid Gravis patch file.''\<rparr>)
         else
           let (num_instruments, f) = read_count 82 f;
               num_instruments = zero_correct num_instruments
           in if num_instruments \<le> 0 then
                Inr (result\<lparr>error := TOO_MANY_INSTRUMENTS,
                       error_msg := ''Cannot handle patches with '' @ str_int num_instruments
                                    @ '' instruments.''\<rparr>)
              else
                let (num_layers, f) = read_count 151 f;
                    num_layers = zero_correct num_layers
                in if num_layers \<le> 0 then
                     Inr (result\<lparr>error := TOO_MANY_LAYERS,
                            error_msg := ''Cannot handle patches with '' @ str_int num_layers
                                         @ '' layers.''\<rparr>)
                   else
                     let (num_samples, f) = read_count 198 f;
                         f = seek_cur 40 f
                     in case read_samples (nat num_samples) f (samples result) of
                          Inl e \<Rightarrow> Inl e
                        | Inr (ss, f') \<Rightarrow> Inr (result\<lparr>samples := ss\<rparr>))"

subsection \<open>Example inputs\<close>

text \<open>
  A sample record whose fields are all zero, a 239-byte header with the sample count
  \<open>n\<close> at offset 198 (instrument and layer bytes 0), and a 96-byte sample record with
  \<open>data_length\<close> \<open>dl\<close> (below 256) and mode byte \<open>m\<close>, followed by its payload.
\<close>

definition blank_info :: sample_info where
  "blank_info =
     \<lparr>fractions = 0, data_length = 0, loop_start = 0, loop_end = 0, sample_rate = 0,
      low_freq = 0, high_freq = 0, root_freq = 0, stereo_balance = 0, tremolo_sweep = 0,
      tremolo_rate = 0, tremolo_depth = 0, vibrato_sweep = 0, vibrato_rate = 0,
      vibrato_depth = 0, modes = 0, scale_freq = 0, scale_factor = 0\<rparr>"

definition patch_header :: "byte \<Rightarrow> byte list" where
  "patch_header n = magic110 @ replicate 187 0 @ [n] @ replicate 40 0"

definition sample_record :: "byte \<Rightarrow> byte \<Rightarrow> byte list \<Rightarrow> byte list" where
  "sample_record dl m payload = replicate 8 0 @ [dl] @ replicate 46 0 @ [m] @ replicate 40 0 @ payload"

section \<open>Properties of the model\<close>

subsection \<open>Bytes and integers\<close>

lemma from_bytes_little_nonneg: "0 \<le> from_bytes_little bs"
  by (induction bs) simp_all

lemma from_bytes_little_zeros: "from_bytes_little (replicate n 0) = 0"
  by (induction n) simp_all

lemma byte_of_int: "uint (word_of_int v :: byte) = v mod 256"
  by (simp add: uint_word_of_int take_bit_eq_mod)

lemma div256_bounds:
  fixes v :: int
  assumes "- 32768 \<le> v" "v \<le> 32767"
  shows "- 128 \<le> v div 256" "v div 256 \<le> 127"
proof -
  define d m where "d = v div 256" and "m = v mod 256"
  have "256 * d + m = v" "0 \<le> m" "m < 256"
    by (simp_all add: d_def m_def)
  with assms show "- 128 \<le> v div 256" "v div 256 \<le> 127"
    unfolding d_def [symmetric] by linarith+
qed

lemma signed16_arith:
  fixes v :: int
  assumes "- 32768 \<le> v" "v \<le> 32767"
  shows "to_signed16 (v mod 256 + 256 * ((v div 256) mod 256)) = v"
proof (cases "0 \<le> v")
  case True
  then have "0 \<le> v div 256" by (simp add: pos_imp_zdiv_nonneg_iff)
  with div256_bounds [OF assms] have "(v div 256) mod 256 = v div 256" by simp
  moreover have "v mod 256 + 256 * (v div 256) = v" by simp
  ultimately show ?thesis using assms by (simp add: to_signed16_def)
next
  case False
  then have neg: "v div 256 < 0" by (simp add: neg_imp_zdiv_neg_iff)
  have "(v div 256) mod 256 = (v div 256 + 256) mod 256" by simp
  also have "\<dots> = v div 256 + 256"
    using neg div256_bounds [OF assms] by (intro mod_pos_pos_trivial) linarith+
  finally have "(v div 256) mod 256 = v div 256 + 256" .
  moreover have "v mod 256 + 256 * (v div 256 + 256) = v + 65536"
    by (simp add: algebra_simps)
  ultimately show ?thesis using assms False by (simp add: to_signed16_def)
qed

lemma to_signed16_pack:
  assumes "- 32768 \<le> v" "v \<le> 32767"
  shows "to_signed16 (uint (word_of_int v :: byte) + 256 * uint (word_of_int (v div 256) :: byte)) = v"
  using signed16_arith [OF assms] by (simp only: byte_of_int)

lemma to_signed16_range: "0 \<le> u \<Longrightarrow> u < 65536 \<Longrightarrow> - 32768 \<le> to_signed16 u \<and> to_signed16 u \<le> 32767"
  by (simp add: to_signed16_def)

lemma le16_bounds:
  fixes lo hi :: byte
  shows "0 \<le> uint lo + 256 * uint hi" "uint lo + 256 * uint hi < 65536"
proof -
  have "uint lo < 256" "uint hi < 256" "0 \<le> uint lo" "0 \<le> uint hi"
    using uint_bounded [of lo] uint_bounded [of hi] by simp_all
  then show "0 \<le> uint lo + 256 * uint hi" "uint lo + 256 * uint hi < 65536"
    by linarith+
qed

lemma le16_arith:
  fixes l h :: int
  assumes "0 \<le> l" "l < 256" "0 \<le> h" "h < 256"
  shows "to_signed16 (l + 256 * h) mod 256 = l"
    and "(to_signed16 (l + 256 * h) div 256) mod 256 = h"
proof -
  have split: "to_signed16 (l + 256 * h) = l + 256 * h \<or> to_signed16 (l + 256 * h) = l + 256 * (h - 256)"
    by (simp add: to_signed16_def)
  have m: "(l + 256 * k) mod 256 = l" for k
    using assms by simp
  have d: "(l + 256 * k) div 256 = k" for k
    using assms by simp
  have h1: "h mod 256 = h" using assms by simp
  have "(h - 256) mod 256 = h mod 256" by simp
  then have h2: "(h - 256) mod 256 = h" using h1 by simp
  from split show "to_signed16 (l + 256 * h) mod 256 = l"
    by (auto simp only: m)
  from split show "(to_signed16 (l + 256 * h) div 256) mod 256 = h"
    by (auto simp only: d h1 h2)
qed

subsection \<open>Packing and unpacking 16-bit words\<close>

lemma pack_h_length: "length (pack_h v) = 2"
  by (simp add: pack_h_def)

lemma length_concat_pack_h: "length (concat (map pack_h vs)) = 2 * length vs"
  by (induction vs) (simp_all add: pack_h_length)

lemma pack_h_unpack:
  fixes lo hi :: byte
  shows "pack_h (to_signed16 (uint lo + 256 * uint hi)) = [lo, hi]"
proof -
  have b: "0 \<le> uint lo" "uint lo < 256" "0 \<le> uint hi" "uint hi < 256"
    using uint_bounded [of lo] uint_bounded [of hi] by simp_all
  have "uint (word_of_int (to_signed16 (uint lo + 256 * uint hi)) :: byte) = uint lo"
    by (simp only: byte_of_int le16_arith(1) [OF b])
  moreover have "uint (word_of_int (to_signed16 (uint lo + 256 * uint hi) div 256) :: byte) = uint hi"
    by (simp only: byte_of_int le16_arith(2) [OF b])
  ultimately show ?thesis
    by (simp add: pack_h_def word_uint_eq_iff)
qed

lemma words_h_range: "\<forall>w \<in> set (words_h data). - 32768 \<le> w \<and> w \<le> 32767"
  by (induction data rule: words_h.induct)
     (simp_all add: to_signed16_range le16_bounds)

lemma words_H_range: "\<forall>w \<in> set (words_H data). 0 \<le> w \<and> w < 65536"
  by (induction data rule: words_H.induct) (simp_all add: le16_bounds)

lemma words_h_length: "length (words_h data) = length data div 2"
  by (induction data rule: words_h.induct) simp_all

lemma words_H_length: "length (words_H data) = length data div 2"
  by (induction data rule: words_H.induct) simp_all

lemma pack_words_h: "even (length data) \<Longrightarrow> concat (map pack_h (words_h data)) = data"
  by (induction data rule: words_h.induct) (simp_all add: pack_h_unpack)

lemma words_h_pack:
  "\<forall>v \<in> set vs. - 32768 \<le> v \<and> v \<le> 32767 \<Longrightarrow> words_h (concat (map pack_h vs)) = vs"
  by (induction vs) (simp_all add: pack_h_def to_signed16_pack)

subsection \<open>The two loops and the PCM step\<close>

lemma signed_loop_result:
  "ii + 2 * length ws \<le> length b \<Longrightarrow> \<forall>w \<in> set ws. - 32768 \<le> w \<and> w \<le> 32767 \<Longrightarrow>
   signed_loop ws ii b = Inr (take ii b @ concat (map pack_h ws) @ drop (ii + 2 * length ws) b)"
proof (induction ws arbitrary: ii b)
  case Nil
  then show ?case by simp
next
  case (Cons w ws)
  let ?b' = "take ii b @ pack_h w @ drop (ii + 2) b"
  from Cons.prems have fit: "ii + 2 \<le> length b" and rng: "- 32768 \<le> w" "w \<le> 32767"
    by simp_all
  then have step: "pack_into_h b ii w = Inr ?b'"
    by (simp add: pack_into_h_def)
  have tk: "take (ii + 2) ?b' = take ii b @ pack_h w"
    using fit by (simp add: pack_h_length)
  have dr: "drop (ii + 2 + 2 * length ws) ?b' = drop (ii + 2 + 2 * length ws) b"
    using fit by (simp add: pack_h_length add.commute)
  have "signed_loop ws (ii + 2) ?b' =
        Inr (take (ii + 2) ?b' @ concat (map pack_h ws) @ drop (ii + 2 + 2 * length ws) ?b')"
    using Cons.prems by (intro Cons.IH) (simp_all add: pack_h_length)
  then have "signed_loop ws (ii + 2) ?b' =
        Inr ((take ii b @ pack_h w) @ concat (map pack_h ws) @ drop (ii + 2 + 2 * length ws) b)"
    by (simp only: tk dr)
  then show ?case
    by (simp add: step)
qed

lemma unsigned_loop_signed:
  "unsigned_loop ws ii b = signed_loop (map (\<lambda>u. u - 32768) ws) ii b"
  by (induction ws arbitrary: ii b) (simp_all split: sum.splits)

lemma signed_loop_bytearray:
  assumes "even (length data)" "length data \<le> nat dl" "length ws = length data div 2"
    and "\<forall>w \<in> set ws. - 32768 \<le> w \<and> w \<le> 32767"
  shows "signed_loop ws 0 (bytearray dl) =
         Inr (concat (map pack_h ws) @ replicate (nat dl - length data) 0)"
proof -
  from assms(1,3) have two: "2 * length ws = length data" by auto
  with assms(2) have "0 + 2 * length ws \<le> length (bytearray dl)"
    by (simp add: bytearray_def)
  from signed_loop_result [OF this assms(4)] show ?thesis
    by (simp add: two bytearray_def)
qed

lemma pcm_step_8bit: "m AND SIXTEEN_BIT = 0 \<Longrightarrow> pcm_step m dl data = Inr (data, 1)"
  by (simp add: pcm_step_def)

lemma pcm_step_odd:
  "m AND SIXTEEN_BIT \<noteq> 0 \<Longrightarrow> odd (length data) \<Longrightarrow> pcm_step m dl data = Inl StructError"
  by (simp add: pcm_step_def Let_def iter_unpack_H_def iter_unpack_h_def odd_iff_mod_2_eq_one)

lemma pcm_step_signed:
  assumes "m AND SIXTEEN_BIT \<noteq> 0" "m AND UNSIGNED = 0"
    and "even (length data)" "length data \<le> nat dl"
  shows "pcm_step m dl data = Inr (data @ replicate (nat dl - length data) 0, 2)"
proof -
  have "signed_loop (words_h data) 0 (bytearray dl) =
        Inr (concat (map pack_h (words_h data)) @ replicate (nat dl - length data) 0)"
    using assms(3,4) by (intro signed_loop_bytearray words_h_length words_h_range)
  with assms show ?thesis
    by (simp add: pcm_step_def Let_def iter_unpack_h_def pack_words_h)
qed

lemma pcm_step_unsigned:
  assumes "m AND SIXTEEN_BIT \<noteq> 0" "m AND UNSIGNED \<noteq> 0"
    and "even (length data)" "length data \<le> nat dl"
  shows "pcm_step m dl data =
         Inr (concat (map pack_h (map (\<lambda>u. u - 32768) (words_H data)))
              @ replicate (nat dl - length data) 0, 2)"
proof -
  have rng: "\<forall>w \<in> set (map (\<lambda>u. u - 32768) (words_H data)). - 32768 \<le> w \<and> w \<le> 32767"
    using words_H_range [of data] by auto
  have "signed_loop (map (\<lambda>u. u - 32768) (words_H data)) 0 (bytearray dl) =
        Inr (concat (map pack_h (map (\<lambda>u. u - 32768) (words_H data)))
             @ replicate (nat dl - length data) 0)"
    using assms(3,4) rng by (intro signed_loop_bytearray) (simp_all add: words_H_length)
  with assms show ?thesis
    by (simp add: pcm_step_def Let_def iter_unpack_H_def unsigned_loop_signed)
qed

subsection \<open>Reading from the file object\<close>

lemma f_read_length: "f_read n f = (data, f') \<Longrightarrow> length data \<le> n"
  by (auto simp: f_read_def Let_def)

lemma f_read_short_eof:
  assumes "f_read n f = (data, f')" "length data < n"
  shows "length (buf f') \<le> pos f'"
  using assms by (auto simp: f_read_def Let_def)

lemma f_read_mk: "f_read n \<lparr>buf = b, pos = p\<rparr> = (take n (drop p b), \<lparr>buf = b, pos = p + length (take n (drop p b))\<rparr>)"
  by (simp add: f_read_def Let_def)

lemma read_int_mk: "read_int n \<lparr>buf = b, pos = p\<rparr> = (from_bytes_little (take n (drop p b)), \<lparr>buf = b, pos = p + length (take n (drop p b))\<rparr>)"
  by (simp add: read_int_def f_read_mk)

lemma seek_cur_mk: "seek_cur n \<lparr>buf = b, pos = p\<rparr> = \<lparr>buf = b, pos = p + n\<rparr>"
  by (simp add: seek_cur_def)

lemma read_count_mk: "read_count off \<lparr>buf = b, pos = p\<rparr> = (from_bytes_little (take 1 (drop off b)), \<lparr>buf = b, pos = off + length (take 1 (drop off b))\<rparr>)"
  by (simp add: read_count_def seek_set_def read_int_mk)

lemma take1_drop: "n < length xs \<Longrightarrow> take (Suc 0) (drop n xs) = [xs ! n]"
  by (simp add: hd_drop_conv_nth take_Suc)

lemma fst_read_count: "fst (read_count off f) = from_bytes_little (take 1 (drop off (buf f)))"
  by (simp add: read_count_def seek_set_def read_int_def f_read_def Let_def)

lemma read_int_eof: "length (buf f) \<le> pos f \<Longrightarrow> read_int n f = (0, f)"
  by (simp add: read_int_def f_read_def Let_def)

lemma seek_cur_eof: "length (buf f) \<le> pos f \<Longrightarrow> length (buf (seek_cur n f)) \<le> pos (seek_cur n f)"
  by (simp add: seek_cur_def)

lemma seek_cur_seek_cur: "seek_cur n (seek_cur m f) = seek_cur (m + n) f"
  by (simp add: seek_cur_def add.assoc)

subsection \<open>The header\<close>

lemma zero_correct_pos: "0 \<le> n \<Longrightarrow> \<not> zero_correct n \<le> 0"
  by (simp add: zero_correct_def)

lemma read_bad_magic:
  "take 11 file \<noteq> magic110 \<Longrightarrow> take 11 file \<noteq> magic100 \<Longrightarrow>
   read file = Inr \<lparr>error = BAD_HEADER, error_msg = ''Invalid Gravis patch file.'', samples = []\<rparr>"
  by (simp add: read_def f_read_mk)

lemma read_good_magic:
  assumes "take 11 file = magic110 \<or> take 11 file = magic100"
  shows "read file =
         (case read_samples (nat (from_bytes_little (take 1 (drop 198 file))))
                 \<lparr>buf = file, pos = 198 + length (take 1 (drop 198 file)) + 40\<rparr> [] of
            Inl e \<Rightarrow> Inl e
          | Inr (ss, f') \<Rightarrow> Inr \<lparr>error = OK, error_msg = [], samples = ss\<rparr>)"
  using assms
  by (simp add: read_def f_read_mk read_count_mk seek_cur_mk Let_def
        zero_correct_pos from_bytes_little_nonneg split: sum.splits)

subsection \<open>The loop over the samples\<close>

lemma read_sample_unfold:
  assumes "read_sample_header f = (h, f1)" "f_read (nat (data_length h)) f1 = (data, f2)"
  shows "read_sample f =
         (case pcm_step (modes h) (data_length h) data of
            Inl e \<Rightarrow> Inl e
          | Inr (data', w) \<Rightarrow> Inr (\<lparr>pcm_data = data', sample_width_in_bytes = w\<rparr>, f2))"
  using assms by (simp add: read_sample_def)

lemma read_samples_length:
  "read_samples n f ss = Inr (ss', f') \<Longrightarrow> length ss' = length ss + n"
  by (induction n arbitrary: f ss) (auto split: sum.splits)

lemma read_samples_split:
  "read_samples k f ss = Inr (ss', g) \<Longrightarrow> read_samples (k + m) f ss = read_samples m g ss'"
  by (induction k arbitrary: f ss) (auto split: sum.splits)

lemma read_sample_header_eof:
  assumes "length (buf f) \<le> pos f"
  shows "read_sample_header f =
         (\<lparr>fractions = 0, data_length = 0, loop_start = 0, loop_end = 0, sample_rate = 0,
           low_freq = 0, high_freq = 0, root_freq = 0, stereo_balance = 0, tremolo_sweep = 0,
           tremolo_rate = 0, tremolo_depth = 0, vibrato_sweep = 0, vibrato_rate = 0,
           vibrato_depth = 0, modes = 0, scale_freq = 0, scale_factor = 0\<rparr>, seek_cur 57 f)"
  using assms
  by (simp add: read_sample_header_def read_int_eof seek_cur_eof seek_cur_seek_cur Mode_def)

lemma read_sample_eof:
  assumes "length (buf f) \<le> pos f"
  shows "read_sample f = Inr (\<lparr>pcm_data = [], sample_width_in_bytes = 1\<rparr>, seek_cur 57 f)"
  by (simp add: read_sample_def read_sample_header_eof [OF assms] f_read_def seek_cur_def
        pcm_step_def SIXTEEN_BIT_def)

lemma read_samples_eof:
  "length (buf f) \<le> pos f \<Longrightarrow>
   read_samples n f ss =
   Inr (ss @ replicate n \<lparr>pcm_data = [], sample_width_in_bytes = 1\<rparr>, seek_cur (57 * n) f)"
proof (induction n arbitrary: f ss)
  case 0
  then show ?case by (simp add: seek_cur_def)
next
  case (Suc n)
  from Suc.prems have "length (buf (seek_cur 57 f)) \<le> pos (seek_cur 57 f)"
    by (rule seek_cur_eof)
  from Suc.IH [OF this] show ?case
    by (simp add: read_sample_eof [OF Suc.prems] seek_cur_seek_cur replicate_append_same)
qed

subsection \<open>The example inputs\<close>

lemma length_patch_header: "length (patch_header n) = 239"
  by (simp add: patch_header_def magic110_def)

lemma patch_header_magic: "take 11 (patch_header n @ rest) = magic110"
  by (simp add: patch_header_def magic110_def)

lemma patch_header_count: "take 1 (drop 198 (patch_header n @ rest)) = [n]"
  by (simp add: patch_header_def magic110_def)

lemma read_sample_header_record:
  "read_sample_header \<lparr>buf = pre @ sample_record dl m payload, pos = length pre\<rparr> =
   (blank_info\<lparr>data_length := uint dl, modes := uint m\<rparr>,
    \<lparr>buf = pre @ sample_record dl m payload, pos = length pre + 96\<rparr>)"
  by (simp add: read_sample_header_def sample_record_def read_int_mk seek_cur_mk Mode_def
        from_bytes_little_zeros blank_info_def)

lemma f_read_record:
  "f_read n \<lparr>buf = pre @ sample_record dl m payload, pos = length pre + 96\<rparr> =
   (take n payload, \<lparr>buf = pre @ sample_record dl m payload, pos = length pre + 96 + length (take n payload)\<rparr>)"
  by (simp add: f_read_mk sample_record_def)

lemma read_sample_header_record0:
  "read_sample_header \<lparr>buf = sample_record dl m payload, pos = 0\<rparr> =
   (blank_info\<lparr>data_length := uint dl, modes := uint m\<rparr>,
    \<lparr>buf = sample_record dl m payload, pos = 96\<rparr>)"
  using read_sample_header_record [of "[]" dl m payload] by simp

lemma f_read_record0:
  "f_read n \<lparr>buf = sample_record dl m payload, pos = 96\<rparr> =
   (take n payload, \<lparr>buf = sample_record dl m payload, pos = 96 + length (take n payload)\<rparr>)"
  using f_read_record [of n "[]" dl m payload] by simp

lemma read_patch_header:
  "read (patch_header n @ rest) =
   (case read_samples (nat (uint n)) \<lparr>buf = patch_header n @ rest, pos = length (patch_header n)\<rparr> [] of
      Inl e \<Rightarrow> Inl e
    | Inr (ss, f') \<Rightarrow> Inr \<lparr>error = OK, error_msg = [], samples = ss\<rparr>)"
proof -
  have magic: "take 11 (patch_header n @ rest) = magic110 \<or> take 11 (patch_header n @ rest) = magic100"
    by (simp only: patch_header_magic) simp
  show ?thesis
    by (simp only: read_good_magic [OF magic] patch_header_count length_patch_header) simp
qed

subsection \<open>One sample, and \<open>read\<close> at a sample\<close>

lemma read_at_sample:
  assumes "take 11 file = magic110 \<or> take 11 file = magic100"
    and "k < nat (from_bytes_little (take 1 (drop 198 file)))"
    and "read_samples k \<lparr>buf = file, pos = 239\<rparr> [] = Inr (ss, g)"
  shows "read file =
         (case read_samples (Suc (nat (from_bytes_little (take 1 (drop 198 file))) - Suc k)) g ss of
            Inl e \<Rightarrow> Inl e
          | Inr (ss', f') \<Rightarrow> Inr \<lparr>error = OK, error_msg = [], samples = ss'\<rparr>)"
proof -
  let ?n = "nat (from_bytes_little (take 1 (drop 198 file)))"
  have "take 1 (drop 198 file) \<noteq> []"
    using assms(2) by auto
  then have "length (take 1 (drop 198 file)) = 1"
    by (cases "drop 198 file") simp_all
  then have start: "198 + length (take 1 (drop 198 file)) + 40 = 239"
    by simp
  define m where "m = ?n - Suc k"
  have n: "k + Suc m = ?n"
    using assms(2) by (simp add: m_def)
  have "read_samples (k + Suc m) \<lparr>buf = file, pos = 239\<rparr> [] = read_samples (Suc m) g ss"
    by (rule read_samples_split [OF assms(3)])
  then have "read_samples ?n \<lparr>buf = file, pos = 239\<rparr> [] = read_samples (Suc m) g ss"
    by (simp only: n)
  then show ?thesis
    unfolding m_def by (simp only: read_good_magic [OF assms(1)] start)
qed

lemma read_raises_at_sample:
  assumes "take 11 file = magic110 \<or> take 11 file = magic100"
    and "k < nat (from_bytes_little (take 1 (drop 198 file)))"
    and "read_samples k \<lparr>buf = file, pos = 239\<rparr> [] = Inr (ss, g)"
    and "read_sample g = Inl e"
  shows "read file = Inl e"
  by (simp add: read_at_sample [OF assms(1,2,3)] assms(4))

lemma read_eof_after_sample:
  assumes "take 11 file = magic110 \<or> take 11 file = magic100"
    and "k < nat (from_bytes_little (take 1 (drop 198 file)))"
    and "read_samples k \<lparr>buf = file, pos = 239\<rparr> [] = Inr (ss, g)"
    and "read_sample g = Inr (a, g2)"
    and "length (buf g2) \<le> pos g2"
  shows "read file =
         Inr \<lparr>error = OK, error_msg = [],
              samples = ss @ a # replicate (nat (from_bytes_little (take 1 (drop 198 file))) - Suc k)
                                   \<lparr>pcm_data = [], sample_width_in_bytes = 1\<rparr>\<rparr>"
  by (simp add: read_at_sample [OF assms(1,2,3)] assms(4) read_samples_eof [OF assms(5)])

lemma read_sample_8bit:
  assumes "read_sample_header f = (h, f1)"
    and "f_read (nat (data_length h)) f1 = (data, f2)"
    and "modes h AND SIXTEEN_BIT = 0"
  shows "read_sample f = Inr (\<lparr>pcm_data = data, sample_width_in_bytes = 1\<rparr>, f2)"
  by (simp add: read_sample_unfold [OF assms(1,2)] pcm_step_8bit [OF assms(3)])

lemma read_sample_odd:
  assumes "read_sample_header f = (h, f1)"
    and "f_read (nat (data_length h)) f1 = (data, f2)"
    and "modes h AND SIXTEEN_BIT \<noteq> 0" and "odd (length data)"
  shows "read_sample f = Inl StructError"
  by (simp add: read_sample_unfold [OF assms(1,2)] pcm_step_odd [OF assms(3,4)])

lemma read_sample_signed:
  assumes "read_sample_header f = (h, f1)"
    and "f_read (nat (data_length h)) f1 = (data, f2)"
    and "modes h AND SIXTEEN_BIT \<noteq> 0" and "modes h AND UNSIGNED = 0"
    and "even (length data)"
  shows "read_sample f =
         Inr (\<lparr>pcm_data = data @ replicate (nat (data_length h) - length data) 0,
               sample_width_in_bytes = 2\<rparr>, f2)"
  by (simp add: read_sample_unfold [OF assms(1,2)]
        pcm_step_signed [OF assms(3,4,5) f_read_length [OF assms(2)]])

lemma read_sample_unsigned:
  assumes "read_sample_header f = (h, f1)"
    and "f_read (nat (data_length h)) f1 = (data, f2)"
    and "modes h AND SIXTEEN_BIT \<noteq> 0" and "modes h AND UNSIGNED \<noteq> 0"
    and "even (length data)"
  shows "read_sample f =
         Inr (\<lparr>pcm_data = concat (map pack_h (map (\<lambda>u. u - 32768) (words_H data)))
                          @ replicate (nat (data_length h) - length data) 0,
               sample_width_in_bytes = 2\<rparr>, f2)"
  by (simp add: read_sample_unfold [OF assms(1,2)]
        pcm_step_unsigned [OF assms(3,4,5) f_read_length [OF assms(2)]])

lemma length_unsigned_bytes:
  "even (length data) \<Longrightarrow>
   length (concat (map pack_h (map (\<lambda>u. u - 32768) (words_H data)))) = length data"
  by (simp only: length_concat_pack_h length_map words_H_length) simp

lemma pcm_step_16bit_width:
  "m AND SIXTEEN_BIT \<noteq> 0 \<Longrightarrow> pcm_step m dl data = Inr (d, w) \<Longrightarrow> w = 2"
  by (auto simp: pcm_step_def Let_def split: sum.splits if_splits)

lemma read_sample_16bit_width:
  assumes "read_sample_header f = (h, f1)"
    and "f_read (nat (data_length h)) f1 = (data, f2)"
    and "modes h AND SIXTEEN_BIT \<noteq> 0"
    and "read_sample f = Inr (a, f')"
  shows "sample_width_in_bytes a = 2"
  using assms(4) pcm_step_16bit_width [OF assms(3)]
  by (auto simp: read_sample_unfold [OF assms(1,2)] split: sum.splits)

lemma read_sample_16bit_even:
  assumes "read_sample_header f = (h, f1)"
    and "f_read (nat (data_length h)) f1 = (data, f2)"
    and "modes h AND SIXTEEN_BIT \<noteq> 0" and "even (length data)"
  shows "\<exists>out. read_sample f = Inr (\<lparr>pcm_data = out, sample_width_in_bytes = 2\<rparr>, f2)"
proof (cases "modes h AND UNSIGNED = 0")
  case True
  from read_sample_signed [OF assms(1,2,3) True assms(4)] show ?thesis by blast
next
  case False
  from read_sample_unsigned [OF assms(1,2,3) False assms(4)] show ?thesis by blast
qed

section \<open>The claims\<close>

text \<open>
  Claim C1, as stated, fails on a payload of odd length: in a sample with \<open>SIXTEEN_BIT\<close>
  and \<open>UNSIGNED\<close> set that declares 3 payload bytes and holds them, \<open>struct.iter_unpack\<close>
  raises \<open>struct.error\<close> before any word is converted, so the PCM step maps nothing, the
  pass of the loop raises, and so does \<open>read\<close> on a file with that sample.
\<close>

theorem unsigned_odd_payload_counterexample:
  "let data = [0x00, 0x80, 0x01];
       f = \<lparr>buf = sample_record 3 3 data, pos = 0\<rparr>;
       h = blank_info\<lparr>data_length := 3, modes := 3\<rparr>;
       f1 = \<lparr>buf = sample_record 3 3 data, pos = 96\<rparr>;
       f2 = \<lparr>buf = sample_record 3 3 data, pos = 99\<rparr>
   in read_sample_header f = (h, f1)
      \<and> f_read (nat (data_length h)) f1 = (data, f2)
      \<and> modes h AND SIXTEEN_BIT \<noteq> 0
      \<and> modes h AND UNSIGNED \<noteq> 0
      \<and> pcm_step (modes h) (data_length h) data = Inl StructError
      \<and> read_sample f = Inl StructError
      \<and> read (patch_header 1 @ sample_record 3 3 data) = Inl StructError"
proof -
  let ?data = "[0x00, 0x80, 0x01] :: byte list"
  let ?f = "\<lparr>buf = sample_record 3 3 ?data, pos = 0\<rparr>"
  let ?h = "blank_info\<lparr>data_length := 3, modes := 3\<rparr>"
  let ?f1 = "\<lparr>buf = sample_record 3 3 ?data, pos = 96\<rparr>"
  let ?f2 = "\<lparr>buf = sample_record 3 3 ?data, pos = 99\<rparr>"
  let ?file = "patch_header 1 @ sample_record 3 3 ?data"
  let ?g = "\<lparr>buf = ?file, pos = 239\<rparr>"
  let ?g1 = "\<lparr>buf = ?file, pos = 335\<rparr>"
  let ?g2 = "\<lparr>buf = ?file, pos = 338\<rparr>"
  have a: "read_sample_header ?f = (?h, ?f1)"
    by (simp add: read_sample_header_record0)
  have b: "f_read (nat (data_length ?h)) ?f1 = (?data, ?f2)"
    by (simp add: f_read_record0)
  have c: "modes ?h AND SIXTEEN_BIT \<noteq> 0"
    by (simp add: SIXTEEN_BIT_def)
  have d: "modes ?h AND UNSIGNED \<noteq> 0"
    by (simp add: UNSIGNED_def)
  have odd: "odd (length ?data)"
    by simp
  have e: "pcm_step (modes ?h) (data_length ?h) ?data = Inl StructError"
    using c odd by (rule pcm_step_odd)
  have r: "read_sample ?f = Inl StructError"
    using a b c odd by (rule read_sample_odd)
  have magic: "take 11 ?file = magic110 \<or> take 11 ?file = magic100"
    by (simp only: patch_header_magic) simp
  have count: "0 < nat (from_bytes_little (take 1 (drop 198 ?file)))"
    by (simp only: patch_header_count) simp
  have before: "read_samples 0 \<lparr>buf = ?file, pos = 239\<rparr> [] = Inr ([], ?g)"
    by simp
  have a': "read_sample_header ?g = (?h, ?g1)"
    using read_sample_header_record [of "patch_header 1" 3 3 ?data]
    by (simp add: length_patch_header)
  have b': "f_read (nat (data_length ?h)) ?g1 = (?data, ?g2)"
    using f_read_record [of 3 "patch_header 1" 3 3 ?data]
    by (simp add: length_patch_header)
  have "read_sample ?g = Inl StructError"
    using a' b' c odd by (rule read_sample_odd)
  then have s: "read ?file = Inl StructError"
    by (rule read_raises_at_sample [OF magic count before])
  show ?thesis
    unfolding Let_def using a b c d e r s by (intro conjI)
qed

text \<open>
  Claim C1, amended: in a sample whose mode byte has \<open>SIXTEEN_BIT\<close> and \<open>UNSIGNED\<close> set and
  whose payload, as read from the file, has an even number of bytes, the PCM step maps
  every little-endian unsigned 16-bit value \<open>u\<close> of the payload to \<open>u - 32768\<close>, written as
  a little-endian signed 16-bit value: the first \<open>length data\<close> bytes of the output are
  the packed values, and unpacking them as signed words gives \<open>u - 32768\<close> for each \<open>u\<close>.
  The buffer \<open>[0x00, 0x80]\<close> becomes \<open>[0x00, 0x00]\<close> and \<open>[0xFF, 0xFF]\<close> becomes
  \<open>[0xFF, 0x7F]\<close>.
\<close>

theorem unsigned_16bit_transcode:
  assumes "read_sample_header f = (h, f1)"
    and "f_read (nat (data_length h)) f1 = (data, f2)"
    and "modes h AND SIXTEEN_BIT \<noteq> 0" and "modes h AND UNSIGNED \<noteq> 0"
    and "even (length data)"
  shows "(\<exists>out. read_sample f = Inr (\<lparr>pcm_data = out, sample_width_in_bytes = 2\<rparr>, f2)
            \<and> length out = nat (data_length h)
            \<and> take (length data) out = concat (map pack_h (map (\<lambda>u. u - 32768) (words_H data)))
            \<and> words_h (take (length data) out) = map (\<lambda>u. u - 32768) (words_H data))
         \<and> pcm_step (SIXTEEN_BIT OR UNSIGNED) 2 [0x00, 0x80] = Inr ([0x00, 0x00], 2)
         \<and> pcm_step (SIXTEEN_BIT OR UNSIGNED) 2 [0xFF, 0xFF] = Inr ([0xFF, 0x7F], 2)"
proof -
  let ?vs = "map (\<lambda>u. u - 32768) (words_H data)"
  let ?out = "concat (map pack_h ?vs) @ replicate (nat (data_length h) - length data) 0"
  have len: "length data \<le> nat (data_length h)"
    using assms(2) by (rule f_read_length)
  have rng: "\<forall>v \<in> set ?vs. - 32768 \<le> v \<and> v \<le> 32767"
    using words_H_range [of data] by auto
  have clen: "length (concat (map pack_h ?vs)) = length data"
    using assms(5) by (rule length_unsigned_bytes)
  then have tk: "take (length data) ?out = concat (map pack_h ?vs)"
    by simp
  have "read_sample f = Inr (\<lparr>pcm_data = ?out, sample_width_in_bytes = 2\<rparr>, f2)"
    using assms by (rule read_sample_unsigned)
  moreover have "length ?out = nat (data_length h)"
    using len clen by simp
  moreover have "words_h (take (length data) ?out) = ?vs"
    by (simp only: tk words_h_pack [OF rng])
  ultimately have first:
    "\<exists>out. read_sample f = Inr (\<lparr>pcm_data = out, sample_width_in_bytes = 2\<rparr>, f2)
       \<and> length out = nat (data_length h)
       \<and> take (length data) out = concat (map pack_h ?vs)
       \<and> words_h (take (length data) out) = ?vs"
    using tk by blast
  have m: "(SIXTEEN_BIT OR UNSIGNED) AND SIXTEEN_BIT \<noteq> 0"
    "(SIXTEEN_BIT OR UNSIGNED) AND UNSIGNED \<noteq> 0"
    by (simp_all add: SIXTEEN_BIT_def UNSIGNED_def)
  have ex1: "pcm_step (SIXTEEN_BIT OR UNSIGNED) 2 [0x00, 0x80] = Inr ([0x00, 0x00], 2)"
    by (simp add: pcm_step_unsigned [OF m] pack_h_def)
  have ex2: "pcm_step (SIXTEEN_BIT OR UNSIGNED) 2 [0xFF, 0xFF] = Inr ([0xFF, 0x7F], 2)"
    by (simp add: pcm_step_unsigned [OF m] pack_h_def)
  from first ex1 ex2 show ?thesis by blast
qed

theorem unsigned_16bit_transcode_witness:
  "read_sample_header \<lparr>buf = sample_record 4 3 [0x00, 0x80, 0xFF, 0xFF], pos = 0\<rparr>
     = (blank_info\<lparr>data_length := 4, modes := 3\<rparr>,
        \<lparr>buf = sample_record 4 3 [0x00, 0x80, 0xFF, 0xFF], pos = 96\<rparr>)
   \<and> f_read (nat (data_length (blank_info\<lparr>data_length := 4, modes := 3\<rparr>)))
         \<lparr>buf = sample_record 4 3 [0x00, 0x80, 0xFF, 0xFF], pos = 96\<rparr>
     = ([0x00, 0x80, 0xFF, 0xFF], \<lparr>buf = sample_record 4 3 [0x00, 0x80, 0xFF, 0xFF], pos = 100\<rparr>)
   \<and> modes (blank_info\<lparr>data_length := 4, modes := 3\<rparr>) AND SIXTEEN_BIT \<noteq> 0
   \<and> modes (blank_info\<lparr>data_length := 4, modes := 3\<rparr>) AND UNSIGNED \<noteq> 0
   \<and> even (length [0x00, 0x80, 0xFF, 0xFF :: byte])
   \<and> read_sample \<lparr>buf = sample_record 4 3 [0x00, 0x80, 0xFF, 0xFF], pos = 0\<rparr>
     = Inr (\<lparr>pcm_data = [0x00, 0x00, 0xFF, 0x7F], sample_width_in_bytes = 2\<rparr>,
            \<lparr>buf = sample_record 4 3 [0x00, 0x80, 0xFF, 0xFF], pos = 100\<rparr>)"
proof -
  let ?data = "[0x00, 0x80, 0xFF, 0xFF] :: byte list"
  let ?f = "\<lparr>buf = sample_record 4 3 ?data, pos = 0\<rparr>"
  let ?h = "blank_info\<lparr>data_length := 4, modes := 3\<rparr>"
  let ?f1 = "\<lparr>buf = sample_record 4 3 ?data, pos = 96\<rparr>"
  let ?f2 = "\<lparr>buf = sample_record 4 3 ?data, pos = 100\<rparr>"
  have a: "read_sample_header ?f = (?h, ?f1)"
    by (simp add: read_sample_header_record0)
  have b: "f_read (nat (data_length ?h)) ?f1 = (?data, ?f2)"
    by (simp add: f_read_record0)
  have c: "modes ?h AND SIXTEEN_BIT \<noteq> 0"
    by (simp add: SIXTEEN_BIT_def)
  have d: "modes ?h AND UNSIGNED \<noteq> 0"
    by (simp add: UNSIGNED_def)
  have e: "even (length ?data)"
    by simp
  from unsigned_16bit_transcode [OF a b c d e] obtain out where
    r: "read_sample ?f = Inr (\<lparr>pcm_data = out, sample_width_in_bytes = 2\<rparr>, ?f2)"
    and l: "length out = nat (data_length ?h)"
    and t: "take (length ?data) out = concat (map pack_h (map (\<lambda>u. u - 32768) (words_H ?data)))"
    by blast
  have v: "concat (map pack_h (map (\<lambda>u. u - 32768) (words_H ?data))) = [0x00, 0x00, 0xFF, 0x7F]"
    by (simp add: pack_h_def)
  have "out = take (length ?data) out"
    using l by simp
  also have "\<dots> = [0x00, 0x00, 0xFF, 0x7F]"
    by (simp only: t v)
  finally have "out = [0x00, 0x00, 0xFF, 0x7F]" .
  with r have f: "read_sample ?f = Inr (\<lparr>pcm_data = [0x00, 0x00, 0xFF, 0x7F], sample_width_in_bytes = 2\<rparr>, ?f2)"
    by simp
  from a b c d e f show ?thesis by blast
qed

text \<open>
  Claim C2, as stated, fails: \<open>read\<close> has no read-failure error. In a file whose only
  sample declares 4 payload bytes and holds 1, the sample comes back with the 1 byte
  (\<open>SIXTEEN_BIT\<close> clear); with 2 bytes and \<open>SIXTEEN_BIT\<close> set it comes back with 4 bytes,
  the last two being zero padding. In both cases the error is \<open>OK\<close>.
\<close>

theorem truncated_payload_counterexample:
  "read (patch_header 1 @ sample_record 4 0 [0x10])
     = Inr \<lparr>error = OK, error_msg = [],
            samples = [\<lparr>pcm_data = [0x10], sample_width_in_bytes = 1\<rparr>]\<rparr>
   \<and> read (patch_header 1 @ sample_record 4 1 [0x10, 0x20])
     = Inr \<lparr>error = OK, error_msg = [],
            samples = [\<lparr>pcm_data = [0x10, 0x20, 0x00, 0x00], sample_width_in_bytes = 2\<rparr>]\<rparr>"
proof -
  have pad: "replicate 2 (0 :: byte) = [0, 0]"
    by (simp add: numeral_2_eq_2)
  have s1: "read_sample \<lparr>buf = patch_header 1 @ sample_record 4 0 [0x10], pos = length (patch_header 1)\<rparr>
        = Inr (\<lparr>pcm_data = [0x10], sample_width_in_bytes = 1\<rparr>,
               \<lparr>buf = patch_header 1 @ sample_record 4 0 [0x10], pos = length (patch_header 1) + 96 + 1\<rparr>)"
    by (simp add: read_sample_def read_sample_header_record f_read_record pcm_step_def SIXTEEN_BIT_def)
  have s2: "read_sample \<lparr>buf = patch_header 1 @ sample_record 4 1 [0x10, 0x20], pos = length (patch_header 1)\<rparr>
        = Inr (\<lparr>pcm_data = [0x10, 0x20, 0x00, 0x00], sample_width_in_bytes = 2\<rparr>,
               \<lparr>buf = patch_header 1 @ sample_record 4 1 [0x10, 0x20], pos = length (patch_header 1) + 96 + 2\<rparr>)"
    by (simp add: read_sample_def read_sample_header_record f_read_record
          pcm_step_signed SIXTEEN_BIT_def UNSIGNED_def pad)
  have "read (patch_header 1 @ sample_record 4 0 [0x10])
     = Inr \<lparr>error = OK, error_msg = [],
            samples = [\<lparr>pcm_data = [0x10], sample_width_in_bytes = 1\<rparr>]\<rparr>"
    by (simp add: read_patch_header s1)
  moreover have "read (patch_header 1 @ sample_record 4 1 [0x10, 0x20])
     = Inr \<lparr>error = OK, error_msg = [],
            samples = [\<lparr>pcm_data = [0x10, 0x20, 0x00, 0x00], sample_width_in_bytes = 2\<rparr>]\<rparr>"
    by (simp add: read_patch_header s2)
  ultimately show ?thesis by blast
qed

text \<open>
  Claim C2, amended: when the sample after \<open>k\<close> decoded ones declares more payload bytes
  than the file has left, and is not a \<open>SIXTEEN_BIT\<close> sample with an odd number of bytes
  left, \<open>read\<close> reports no error. The result has error \<open>OK\<close>; that sample's \<open>pcm_data\<close> is
  the bytes that were left, unchanged and with width 1, when \<open>SIXTEEN_BIT\<close> is clear, and
  a buffer of the declared length, the transcoded bytes followed by zero bytes, with
  width 2, when \<open>SIXTEEN_BIT\<close> is set; every later sample of the count is empty with
  width 1.
\<close>

theorem truncated_payload_no_error:
  assumes "take 11 file = magic110 \<or> take 11 file = magic100"
    and "k < nat (from_bytes_little (take 1 (drop 198 file)))"
    and "read_samples k \<lparr>buf = file, pos = 239\<rparr> [] = Inr (ss, g)"
    and "read_sample_header g = (h, g1)"
    and "f_read (nat (data_length h)) g1 = (data, g2)"
    and "length data < nat (data_length h)"
    and "modes h AND SIXTEEN_BIT = 0 \<or> even (length data)"
  shows "\<exists>a. read_sample g = Inr (a, g2)
           \<and> read file =
               Inr \<lparr>error = OK, error_msg = [],
                    samples = ss @ a # replicate (nat (from_bytes_little (take 1 (drop 198 file))) - Suc k)
                                         \<lparr>pcm_data = [], sample_width_in_bytes = 1\<rparr>\<rparr>
           \<and> (modes h AND SIXTEEN_BIT = 0 \<longrightarrow>
                 a = \<lparr>pcm_data = data, sample_width_in_bytes = 1\<rparr>)
           \<and> (modes h AND SIXTEEN_BIT \<noteq> 0 \<longrightarrow>
                 sample_width_in_bytes a = 2
                 \<and> length (pcm_data a) = nat (data_length h)
                 \<and> take (length data) (pcm_data a) =
                     (if modes h AND UNSIGNED = 0 then data
                      else concat (map pack_h (map (\<lambda>u. u - 32768) (words_H data))))
                 \<and> drop (length data) (pcm_data a) =
                     replicate (nat (data_length h) - length data) 0)"
proof -
  have eof: "length (buf g2) \<le> pos g2"
    using assms(5,6) by (rule f_read_short_eof)
  note tail = read_eof_after_sample [OF assms(1,2,3) _ eof]
  consider (eight) "modes h AND SIXTEEN_BIT = 0"
    | (signed) "modes h AND SIXTEEN_BIT \<noteq> 0" "modes h AND UNSIGNED = 0" "even (length data)"
    | (unsigned) "modes h AND SIXTEEN_BIT \<noteq> 0" "modes h AND UNSIGNED \<noteq> 0" "even (length data)"
    using assms(7) by blast
  then show ?thesis
  proof cases
    case eight
    from read_sample_8bit [OF assms(4,5) eight] tail eight show ?thesis
      by blast
  next
    case signed
    let ?a = "\<lparr>pcm_data = data @ replicate (nat (data_length h) - length data) 0,
               sample_width_in_bytes = 2\<rparr>"
    have s: "read_sample g = Inr (?a, g2)"
      using assms(4,5) signed by (rule read_sample_signed)
    have "sample_width_in_bytes ?a = 2 \<and> length (pcm_data ?a) = nat (data_length h)
          \<and> take (length data) (pcm_data ?a) = data
          \<and> drop (length data) (pcm_data ?a) = replicate (nat (data_length h) - length data) 0"
      using assms(6) by simp
    with s tail [OF s] signed show ?thesis
      by (intro exI [of _ ?a]) simp
  next
    case unsigned
    let ?x = "concat (map pack_h (map (\<lambda>u. u - 32768) (words_H data)))"
    let ?a = "\<lparr>pcm_data = ?x @ replicate (nat (data_length h) - length data) 0,
               sample_width_in_bytes = 2\<rparr>"
    have s: "read_sample g = Inr (?a, g2)"
      using assms(4,5) unsigned by (rule read_sample_unsigned)
    have l: "length ?x = length data"
      using unsigned(3) by (rule length_unsigned_bytes)
    have "sample_width_in_bytes ?a = 2 \<and> length (pcm_data ?a) = nat (data_length h)
          \<and> take (length data) (pcm_data ?a) = ?x
          \<and> drop (length data) (pcm_data ?a) = replicate (nat (data_length h) - length data) 0"
      using assms(6) l by simp
    with s tail [OF s] unsigned show ?thesis
      by (intro exI [of _ ?a]) simp
  qed
qed

theorem truncated_payload_no_error_witness:
  "let file = patch_header 2 @ sample_record 4 1 [0x10, 0x20];
       g = \<lparr>buf = file, pos = 239\<rparr>;
       h = blank_info\<lparr>data_length := 4, modes := 1\<rparr>;
       g1 = \<lparr>buf = file, pos = 335\<rparr>;
       g2 = \<lparr>buf = file, pos = 337\<rparr>
   in (take 11 file = magic110 \<or> take 11 file = magic100)
      \<and> 0 < nat (from_bytes_little (take 1 (drop 198 file)))
      \<and> read_samples 0 \<lparr>buf = file, pos = 239\<rparr> [] = Inr ([], g)
      \<and> read_sample_header g = (h, g1)
      \<and> f_read (nat (data_length h)) g1 = ([0x10, 0x20], g2)
      \<and> length [0x10, 0x20 :: byte] < nat (data_length h)
      \<and> (modes h AND SIXTEEN_BIT = 0 \<or> even (length [0x10, 0x20 :: byte]))
      \<and> modes h AND SIXTEEN_BIT \<noteq> 0
      \<and> read file =
          Inr \<lparr>error = OK, error_msg = [],
               samples = [\<lparr>pcm_data = [0x10, 0x20, 0x00, 0x00], sample_width_in_bytes = 2\<rparr>,
                          \<lparr>pcm_data = [], sample_width_in_bytes = 1\<rparr>]\<rparr>"
proof -
  let ?file = "patch_header 2 @ sample_record 4 1 [0x10, 0x20]"
  let ?g = "\<lparr>buf = ?file, pos = 239\<rparr>"
  let ?h = "blank_info\<lparr>data_length := 4, modes := 1\<rparr>"
  let ?g1 = "\<lparr>buf = ?file, pos = 335\<rparr>"
  let ?g2 = "\<lparr>buf = ?file, pos = 337\<rparr>"
  let ?data = "[0x10, 0x20] :: byte list"
  have a: "take 11 ?file = magic110 \<or> take 11 ?file = magic100"
    by (simp only: patch_header_magic) simp
  have b: "0 < nat (from_bytes_little (take 1 (drop 198 ?file)))"
    by (simp only: patch_header_count) simp
  have c: "read_samples 0 \<lparr>buf = ?file, pos = 239\<rparr> [] = Inr ([], ?g)"
    by simp
  have d: "read_sample_header ?g = (?h, ?g1)"
    using read_sample_header_record [of "patch_header 2" 4 1 ?data]
    by (simp add: length_patch_header)
  have e: "f_read (nat (data_length ?h)) ?g1 = (?data, ?g2)"
    using f_read_record [of 4 "patch_header 2" 4 1 ?data]
    by (simp add: length_patch_header)
  have f: "length ?data < nat (data_length ?h)"
    by simp
  have m: "modes ?h AND SIXTEEN_BIT \<noteq> 0"
    by (simp add: SIXTEEN_BIT_def)
  have u: "modes ?h AND UNSIGNED = 0"
    by (simp add: UNSIGNED_def)
  have g: "modes ?h AND SIXTEEN_BIT = 0 \<or> even (length ?data)"
    by simp
  from truncated_payload_no_error [OF a b c d e f g] m obtain a where
    r: "read ?file =
          Inr \<lparr>error = OK, error_msg = [],
               samples = [] @ a # replicate (nat (from_bytes_little (take 1 (drop 198 ?file))) - Suc 0)
                                    \<lparr>pcm_data = [], sample_width_in_bytes = 1\<rparr>\<rparr>"
    and w: "sample_width_in_bytes a = 2"
    and t: "take (length ?data) (pcm_data a) =
              (if modes ?h AND UNSIGNED = 0 then ?data
               else concat (map pack_h (map (\<lambda>u. u - 32768) (words_H ?data))))"
    and p: "drop (length ?data) (pcm_data a) = replicate (nat (data_length ?h) - length ?data) 0"
    by blast
  have "pcm_data a = take (length ?data) (pcm_data a) @ drop (length ?data) (pcm_data a)"
    by simp
  also have "\<dots> = ?data @ replicate (nat (data_length ?h) - length ?data) 0"
    by (simp only: t p u simp_thms if_True)
  also have "\<dots> = [0x10, 0x20, 0x00, 0x00]"
    by (simp add: numeral_2_eq_2)
  finally have "a = \<lparr>pcm_data = [0x10, 0x20, 0x00, 0x00], sample_width_in_bytes = 2\<rparr>"
    using w by (cases a) simp
  moreover have "nat (from_bytes_little (take 1 (drop 198 ?file))) - Suc 0 = Suc 0"
    by (simp only: patch_header_count) simp
  ultimately have r': "read ?file =
          Inr \<lparr>error = OK, error_msg = [],
               samples = [\<lparr>pcm_data = [0x10, 0x20, 0x00, 0x00], sample_width_in_bytes = 2\<rparr>,
                          \<lparr>pcm_data = [], sample_width_in_bytes = 1\<rparr>]\<rparr>"
    using r by simp
  show ?thesis
    unfolding Let_def using a b c d e f g m r' by (intro conjI)
qed

text \<open>
  Claim C3: a file whose first 11 bytes (all of its bytes, when it has fewer) are neither
  \<open>GF1PATCH110\<close> nor \<open>GF1PATCH100\<close> makes \<open>read\<close> return the error \<open>BAD_HEADER\<close> with the
  message \<open>Invalid Gravis patch file.\<close> and no samples, whatever the rest of the file is.
\<close>

theorem bad_magic_is_bad_header:
  assumes "take 11 file \<noteq> magic110" and "take 11 file \<noteq> magic100"
  shows "read file = Inr \<lparr>error = BAD_HEADER, error_msg = ''Invalid Gravis patch file.'',
                          samples = []\<rparr>"
  using assms by (rule read_bad_magic)

theorem bad_magic_is_bad_header_witness:
  "take 11 [0x47, 0x46, 0x31, 0x50, 0x41, 0x54, 0x43, 0x48, 0x31, 0x31, 0x31, 0x01, 0x02] \<noteq> magic110
   \<and> take 11 [0x47, 0x46, 0x31, 0x50, 0x41, 0x54, 0x43, 0x48, 0x31, 0x31, 0x31, 0x01, 0x02] \<noteq> magic100
   \<and> read [0x47, 0x46, 0x31, 0x50, 0x41, 0x54, 0x43, 0x48, 0x31, 0x31, 0x31, 0x01, 0x02]
       = Inr \<lparr>error = BAD_HEADER, error_msg = ''Invalid Gravis patch file.'', samples = []\<rparr>"
proof -
  let ?file = "[0x47, 0x46, 0x31, 0x50, 0x41, 0x54, 0x43, 0x48, 0x31, 0x31, 0x31, 0x01, 0x02] :: byte list"
  have a: "take 11 ?file \<noteq> magic110" by (simp add: magic110_def)
  have b: "take 11 ?file \<noteq> magic100" by (simp add: magic100_def)
  from a b bad_magic_is_bad_header [OF a b] show ?thesis by blast
qed

text \<open>
  Claim C4, as stated, fails in one direction: a file that is only the magic string, and
  a 199-byte file with the magic string and zero bytes up to the sample count at offset
  198, have the sample count 0, so \<open>read\<close> returns no samples and the error \<open>OK\<close>.
\<close>

theorem no_samples_counterexample:
  "read magic110 = Inr \<lparr>error = OK, error_msg = [], samples = []\<rparr>
   \<and> read (magic110 @ replicate 188 0) = Inr \<lparr>error = OK, error_msg = [], samples = []\<rparr>"
proof -
  have a: "read magic110 = Inr \<lparr>error = OK, error_msg = [], samples = []\<rparr>"
    by (simp add: read_good_magic magic110_def)
  have magic: "take 11 (magic110 @ replicate 188 0) = magic110
               \<or> take 11 (magic110 @ replicate 188 0) = magic100"
    by (simp add: magic110_def)
  have b: "read (magic110 @ replicate 188 0) = Inr \<lparr>error = OK, error_msg = [], samples = []\<rparr>"
    by (simp only: read_good_magic [OF magic]) (simp add: magic110_def)
  from a b show ?thesis by simp
qed

text \<open>
  Claim C4, amended: whenever \<open>read\<close> returns a result, its samples are empty if and only
  if an error occurred or the sample count read at offset 198 is 0. In particular an
  error implies that there are no samples.
\<close>

theorem samples_empty_iff:
  assumes "read file = Inr r"
  shows "samples r = [] \<longleftrightarrow> error r \<noteq> OK \<or> from_bytes_little (take 1 (drop 198 file)) = 0"
proof (cases "take 11 file = magic110 \<or> take 11 file = magic100")
  case False
  with assms show ?thesis by (auto simp: read_bad_magic)
next
  case True
  let ?n = "nat (from_bytes_little (take 1 (drop 198 file)))"
  from assms obtain ss f' where
    loop: "read_samples ?n \<lparr>buf = file, pos = 198 + length (take 1 (drop 198 file)) + 40\<rparr> [] = Inr (ss, f')"
    and r: "r = \<lparr>error = OK, error_msg = [], samples = ss\<rparr>"
    by (auto simp: read_good_magic [OF True] split: sum.splits)
  from read_samples_length [OF loop] have "length ss = ?n" by simp
  then have "ss = [] \<longleftrightarrow> from_bytes_little (take 1 (drop 198 file)) = 0"
    using from_bytes_little_nonneg [of "take 1 (drop 198 file)"] by auto
  with r show ?thesis by simp
qed

theorem samples_empty_iff_witness:
  "read [] = Inr \<lparr>error = BAD_HEADER, error_msg = ''Invalid Gravis patch file.'', samples = []\<rparr>
   \<and> (samples \<lparr>error = BAD_HEADER, error_msg = ''Invalid Gravis patch file.'', samples = []\<rparr> = []
        \<longleftrightarrow> error \<lparr>error = BAD_HEADER, error_msg = ''Invalid Gravis patch file.'', samples = []\<rparr> \<noteq> OK
            \<or> from_bytes_little (take 1 (drop 198 [])) = 0)
   \<and> read (patch_header 1 @ sample_record 4 0 [0x10])
       = Inr \<lparr>error = OK, error_msg = [], samples = [\<lparr>pcm_data = [0x10], sample_width_in_bytes = 1\<rparr>]\<rparr>
   \<and> (samples \<lparr>error = OK, error_msg = [], samples = [\<lparr>pcm_data = [0x10], sample_width_in_bytes = 1\<rparr>]\<rparr> = []
        \<longleftrightarrow> error \<lparr>error = OK, error_msg = [], samples = [\<lparr>pcm_data = [0x10], sample_width_in_bytes = 1\<rparr>]\<rparr> \<noteq> OK
            \<or> from_bytes_little (take 1 (drop 198 (patch_header 1 @ sample_record 4 0 [0x10]))) = 0)"
proof -
  have a: "read [] = Inr \<lparr>error = BAD_HEADER, error_msg = ''Invalid Gravis patch file.'', samples = []\<rparr>"
    by (simp add: read_bad_magic magic110_def magic100_def)
  have s: "read_sample \<lparr>buf = patch_header 1 @ sample_record 4 0 [0x10], pos = length (patch_header 1)\<rparr>
        = Inr (\<lparr>pcm_data = [0x10], sample_width_in_bytes = 1\<rparr>,
               \<lparr>buf = patch_header 1 @ sample_record 4 0 [0x10], pos = length (patch_header 1) + 96 + 1\<rparr>)"
    by (simp add: read_sample_def read_sample_header_record f_read_record pcm_step_def SIXTEEN_BIT_def)
  have b: "read (patch_header 1 @ sample_record 4 0 [0x10])
       = Inr \<lparr>error = OK, error_msg = [], samples = [\<lparr>pcm_data = [0x10], sample_width_in_bytes = 1\<rparr>]\<rparr>"
    by (simp add: read_patch_header s)
  from a b samples_empty_iff [OF a] samples_empty_iff [OF b] show ?thesis by blast
qed

text \<open>
  Claim C5: a sample whose mode byte lacks \<open>SIXTEEN_BIT\<close> is always decoded, with the
  payload unchanged and \<open>sample_width_in_bytes = 1\<close>; every decoded sample whose mode byte
  has \<open>SIXTEEN_BIT\<close> has \<open>sample_width_in_bytes = 2\<close>, and such a sample is decoded
  whenever its payload has an even number of bytes. Nothing here depends on \<open>UNSIGNED\<close>.
\<close>

theorem sample_width_by_mode:
  assumes "read_sample_header f = (h, f1)"
    and "f_read (nat (data_length h)) f1 = (data, f2)"
  shows "(modes h AND SIXTEEN_BIT = 0 \<longrightarrow>
            read_sample f = Inr (\<lparr>pcm_data = data, sample_width_in_bytes = 1\<rparr>, f2))
         \<and> (modes h AND SIXTEEN_BIT \<noteq> 0 \<longrightarrow>
              (\<forall>a f'. read_sample f = Inr (a, f') \<longrightarrow> sample_width_in_bytes a = 2)
              \<and> (even (length data) \<longrightarrow>
                   (\<exists>out. read_sample f = Inr (\<lparr>pcm_data = out, sample_width_in_bytes = 2\<rparr>, f2))))"
  using read_sample_8bit [OF assms] read_sample_16bit_width [OF assms]
    read_sample_16bit_even [OF assms]
  by blast

theorem sample_width_by_mode_witness:
  "read_sample_header \<lparr>buf = sample_record 3 0 [1, 2, 3], pos = 0\<rparr>
     = (blank_info\<lparr>data_length := 3, modes := 0\<rparr>, \<lparr>buf = sample_record 3 0 [1, 2, 3], pos = 96\<rparr>)
   \<and> f_read (nat (data_length (blank_info\<lparr>data_length := 3, modes := 0\<rparr>)))
         \<lparr>buf = sample_record 3 0 [1, 2, 3], pos = 96\<rparr>
     = ([1, 2, 3], \<lparr>buf = sample_record 3 0 [1, 2, 3], pos = 99\<rparr>)
   \<and> modes (blank_info\<lparr>data_length := 3, modes := 0\<rparr>) AND SIXTEEN_BIT = 0
   \<and> read_sample \<lparr>buf = sample_record 3 0 [1, 2, 3], pos = 0\<rparr>
     = Inr (\<lparr>pcm_data = [1, 2, 3], sample_width_in_bytes = 1\<rparr>,
            \<lparr>buf = sample_record 3 0 [1, 2, 3], pos = 99\<rparr>)
   \<and> read_sample_header \<lparr>buf = sample_record 2 3 [1, 2], pos = 0\<rparr>
     = (blank_info\<lparr>data_length := 2, modes := 3\<rparr>, \<lparr>buf = sample_record 2 3 [1, 2], pos = 96\<rparr>)
   \<and> f_read (nat (data_length (blank_info\<lparr>data_length := 2, modes := 3\<rparr>)))
         \<lparr>buf = sample_record 2 3 [1, 2], pos = 96\<rparr>
     = ([1, 2], \<lparr>buf = sample_record 2 3 [1, 2], pos = 98\<rparr>)
   \<and> modes (blank_info\<lparr>data_length := 2, modes := 3\<rparr>) AND SIXTEEN_BIT \<noteq> 0
   \<and> even (length [1, 2 :: byte])
   \<and> (\<exists>out. read_sample \<lparr>buf = sample_record 2 3 [1, 2], pos = 0\<rparr>
               = Inr (\<lparr>pcm_data = out, sample_width_in_bytes = 2\<rparr>,
                      \<lparr>buf = sample_record 2 3 [1, 2], pos = 98\<rparr>)
             \<and> sample_width_in_bytes \<lparr>pcm_data = out, sample_width_in_bytes = 2\<rparr> = 2)"
proof -
  let ?f = "\<lparr>buf = sample_record 3 0 [1, 2, 3], pos = 0\<rparr>"
  let ?h = "blank_info\<lparr>data_length := 3, modes := 0\<rparr>"
  let ?f1 = "\<lparr>buf = sample_record 3 0 [1, 2, 3], pos = 96\<rparr>"
  let ?f2 = "\<lparr>buf = sample_record 3 0 [1, 2, 3], pos = 99\<rparr>"
  let ?g = "\<lparr>buf = sample_record 2 3 [1, 2], pos = 0\<rparr>"
  let ?k = "blank_info\<lparr>data_length := 2, modes := 3\<rparr>"
  let ?g1 = "\<lparr>buf = sample_record 2 3 [1, 2], pos = 96\<rparr>"
  let ?g2 = "\<lparr>buf = sample_record 2 3 [1, 2], pos = 98\<rparr>"
  have a: "read_sample_header ?f = (?h, ?f1)"
    by (simp add: read_sample_header_record0)
  have b: "f_read (nat (data_length ?h)) ?f1 = ([1, 2, 3], ?f2)"
    by (simp add: f_read_record0)
  have c: "modes ?h AND SIXTEEN_BIT = 0"
    by (simp add: SIXTEEN_BIT_def)
  have d: "read_sample ?f = Inr (\<lparr>pcm_data = [1, 2, 3], sample_width_in_bytes = 1\<rparr>, ?f2)"
    using sample_width_by_mode [OF a b] c by blast
  have a': "read_sample_header ?g = (?k, ?g1)"
    by (simp add: read_sample_header_record0)
  have b': "f_read (nat (data_length ?k)) ?g1 = ([1, 2], ?g2)"
    by (simp add: f_read_record0)
  have c': "modes ?k AND SIXTEEN_BIT \<noteq> 0"
    by (simp add: SIXTEEN_BIT_def)
  have e': "even (length [1, 2 :: byte])"
    by simp
  have d': "\<exists>out. read_sample ?g = Inr (\<lparr>pcm_data = out, sample_width_in_bytes = 2\<rparr>, ?g2)
               \<and> sample_width_in_bytes \<lparr>pcm_data = out, sample_width_in_bytes = 2\<rparr> = 2"
    using sample_width_by_mode [OF a' b'] c' e' by auto
  show ?thesis
    using a b c d a' b' c' e' d' by (intro conjI)
qed

text \<open>
  Claim C6: in a sample with \<open>SIXTEEN_BIT\<close> set and \<open>UNSIGNED\<close> clear whose payload was
  read in full (its length is the declared \<open>data_length\<close>) and has an even number of
  bytes, the PCM step returns the payload byte for byte; the output has the length of the
  input, which is \<open>data_length\<close>.
\<close>

theorem signed_16bit_passthrough:
  assumes "read_sample_header f = (h, f1)"
    and "f_read (nat (data_length h)) f1 = (data, f2)"
    and "modes h AND SIXTEEN_BIT \<noteq> 0" and "modes h AND UNSIGNED = 0"
    and "length data = nat (data_length h)"
    and "even (length data)"
  shows "\<exists>out. pcm_step (modes h) (data_length h) data = Inr (out, 2)
           \<and> read_sample f = Inr (\<lparr>pcm_data = out, sample_width_in_bytes = 2\<rparr>, f2)
           \<and> out = data
           \<and> length out = length data
           \<and> length out = nat (data_length h)"
proof -
  have "pcm_step (modes h) (data_length h) data = Inr (data, 2)"
    using pcm_step_signed [OF assms(3,4,6), of "data_length h"] assms(5) by simp
  moreover have "read_sample f = Inr (\<lparr>pcm_data = data, sample_width_in_bytes = 2\<rparr>, f2)"
    using read_sample_signed [OF assms(1,2,3,4,6)] assms(5) by simp
  ultimately show ?thesis
    using assms(5) by simp
qed

theorem signed_16bit_passthrough_witness:
  "let f = \<lparr>buf = sample_record 4 1 [0x34, 0x12, 0x00, 0x80], pos = 0\<rparr>;
       h = blank_info\<lparr>data_length := 4, modes := 1\<rparr>;
       f1 = \<lparr>buf = sample_record 4 1 [0x34, 0x12, 0x00, 0x80], pos = 96\<rparr>;
       f2 = \<lparr>buf = sample_record 4 1 [0x34, 0x12, 0x00, 0x80], pos = 100\<rparr>;
       data = [0x34, 0x12, 0x00, 0x80]
   in read_sample_header f = (h, f1)
      \<and> f_read (nat (data_length h)) f1 = (data, f2)
      \<and> modes h AND SIXTEEN_BIT \<noteq> 0
      \<and> modes h AND UNSIGNED = 0
      \<and> length data = nat (data_length h)
      \<and> even (length data)
      \<and> pcm_step (modes h) (data_length h) data = Inr (data, 2)
      \<and> read_sample f = Inr (\<lparr>pcm_data = [0x34, 0x12, 0x00, 0x80], sample_width_in_bytes = 2\<rparr>, f2)"
proof -
  let ?data = "[0x34, 0x12, 0x00, 0x80] :: byte list"
  let ?f = "\<lparr>buf = sample_record 4 1 ?data, pos = 0\<rparr>"
  let ?h = "blank_info\<lparr>data_length := 4, modes := 1\<rparr>"
  let ?f1 = "\<lparr>buf = sample_record 4 1 ?data, pos = 96\<rparr>"
  let ?f2 = "\<lparr>buf = sample_record 4 1 ?data, pos = 100\<rparr>"
  have a: "read_sample_header ?f = (?h, ?f1)"
    by (simp add: read_sample_header_record0)
  have b: "f_read (nat (data_length ?h)) ?f1 = (?data, ?f2)"
    by (simp add: f_read_record0)
  have c: "modes ?h AND SIXTEEN_BIT \<noteq> 0"
    by (simp add: SIXTEEN_BIT_def)
  have d: "modes ?h AND UNSIGNED = 0"
    by (simp add: UNSIGNED_def)
  have e: "length ?data = nat (data_length ?h)"
    by simp
  have f: "even (length ?data)"
    by simp
  from signed_16bit_passthrough [OF a b c d e f]
  have g: "pcm_step (modes ?h) (data_length ?h) ?data = Inr (?data, 2)"
    and h: "read_sample ?f = Inr (\<lparr>pcm_data = ?data, sample_width_in_bytes = 2\<rparr>, ?f2)"
    by blast+
  show ?thesis
    unfolding Let_def using a b c d e f g h by (intro conjI)
qed

text \<open>
  Claim C7: when the instrument count byte at offset 82 is 0 the corrected count is 1, and
  likewise for the layer count byte at offset 151; the correction is idempotent and
  leaves a non-zero value as it is.
\<close>

theorem zero_means_one:
  "(82 < length file \<and> file ! 82 = 0 \<longrightarrow> zero_correct (fst (read_count 82 \<lparr>buf = file, pos = p\<rparr>)) = 1)
   \<and> (151 < length file \<and> file ! 151 = 0 \<longrightarrow> zero_correct (fst (read_count 151 \<lparr>buf = file, pos = p\<rparr>)) = 1)
   \<and> zero_correct (zero_correct n) = zero_correct n
   \<and> (n \<noteq> 0 \<longrightarrow> zero_correct n = n)"
  by (simp add: fst_read_count take1_drop zero_correct_def)

theorem zero_means_one_witness:
  "82 < length (replicate 152 (0 :: byte)) \<and> replicate 152 (0 :: byte) ! 82 = 0
   \<and> zero_correct (fst (read_count 82 \<lparr>buf = replicate 152 0, pos = 11\<rparr>)) = 1
   \<and> 151 < length (replicate 152 (0 :: byte)) \<and> replicate 152 (0 :: byte) ! 151 = 0
   \<and> zero_correct (fst (read_count 151 \<lparr>buf = replicate 152 0, pos = 83\<rparr>)) = 1
   \<and> zero_correct (zero_correct 0) = zero_correct 0
   \<and> (7 :: int) \<noteq> 0 \<and> zero_correct 7 = 7"
  using zero_means_one [of "replicate 152 0" 11 0] zero_means_one [of "replicate 152 0" 83 7]
  by simp

text \<open>
  Claim C8: a file with one of the two magic strings and the byte 0 at offset 198 makes
  \<open>read\<close> return no samples and the error \<open>OK\<close>.
\<close>

theorem zero_samples_ok:
  assumes "take 11 file = magic110 \<or> take 11 file = magic100"
    and "198 < length file" and "file ! 198 = 0"
  shows "read file = Inr \<lparr>error = OK, error_msg = [], samples = []\<rparr>"
  using assms(2,3) by (simp add: read_good_magic [OF assms(1)] take1_drop)

theorem zero_samples_ok_witness:
  "(take 11 (magic100 @ replicate 188 0) = magic110 \<or> take 11 (magic100 @ replicate 188 0) = magic100)
   \<and> 198 < length (magic100 @ replicate 188 0)
   \<and> (magic100 @ replicate 188 0) ! 198 = 0
   \<and> read (magic100 @ replicate 188 0) = Inr \<lparr>error = OK, error_msg = [], samples = []\<rparr>"
proof -
  let ?file = "magic100 @ replicate 188 (0 :: byte)"
  have a: "take 11 ?file = magic110 \<or> take 11 ?file = magic100" by (simp add: magic100_def)
  have b: "198 < length ?file" by (simp add: magic100_def)
  have c: "?file ! 198 = 0" by (simp add: magic100_def nth_append)
  from a b c zero_samples_ok [OF a b c] show ?thesis by blast
qed

text \<open>
  Claim C9: the corrected instrument and layer counts are at least 1 for every file and
  cursor, and \<open>read\<close> returns neither \<open>TOO_MANY_INSTRUMENTS\<close> nor \<open>TOO_MANY_LAYERS\<close> on
  any file.
\<close>

theorem count_guards_unreachable:
  "1 \<le> zero_correct (fst (read_count 82 f)) \<and> 1 \<le> zero_correct (fst (read_count 151 f))
   \<and> (\<forall>r. read file = Inr r \<longrightarrow> error r \<noteq> TOO_MANY_INSTRUMENTS \<and> error r \<noteq> TOO_MANY_LAYERS)"
proof -
  have pos: "1 \<le> zero_correct (fst (read_count off f))" for off
    using from_bytes_little_nonneg [of "take 1 (drop off (buf f))"]
    by (simp add: fst_read_count zero_correct_def)
  have "error r \<noteq> TOO_MANY_INSTRUMENTS \<and> error r \<noteq> TOO_MANY_LAYERS" if "read file = Inr r" for r
  proof (cases "take 11 file = magic110 \<or> take 11 file = magic100")
    case False
    with that show ?thesis by (auto simp: read_bad_magic)
  next
    case True
    with that show ?thesis
      by (auto simp: read_good_magic [OF True] split: sum.splits)
  qed
  with pos show ?thesis by blast
qed

theorem count_guards_unreachable_witness:
  "read (magic110 @ replicate 72 0) = Inr \<lparr>error = OK, error_msg = [], samples = []\<rparr>
   \<and> 1 \<le> zero_correct (fst (read_count 82 \<lparr>buf = magic110 @ replicate 72 0, pos = 11\<rparr>))
   \<and> error \<lparr>error = OK, error_msg = [], samples = []\<rparr> \<noteq> TOO_MANY_INSTRUMENTS
   \<and> error \<lparr>error = OK, error_msg = [], samples = []\<rparr> \<noteq> TOO_MANY_LAYERS"
proof -
  have a: "read (magic110 @ replicate 72 0) = Inr \<lparr>error = OK, error_msg = [], samples = []\<rparr>"
    by (simp add: read_good_magic magic110_def)
  from a count_guards_unreachable [of "\<lparr>buf = magic110 @ replicate 72 0, pos = 11\<rparr>" "magic110 @ replicate 72 0"]
  show ?thesis by blast
qed

text \<open>
  Claim C10: when \<open>read\<close> has decoded \<open>k\<close> samples, the count asks for more, and the next
  sample has \<open>SIXTEEN_BIT\<close> set and a payload, as read from the file, of odd length, that
  pass of the loop raises \<open>struct.error\<close> and so does \<open>read\<close>: no result is returned.
\<close>

theorem odd_16bit_payload_raises:
  assumes "take 11 file = magic110 \<or> take 11 file = magic100"
    and "k < nat (from_bytes_little (take 1 (drop 198 file)))"
    and "read_samples k \<lparr>buf = file, pos = 239\<rparr> [] = Inr (ss, g)"
    and "read_sample_header g = (h, g1)"
    and "f_read (nat (data_length h)) g1 = (data, g2)"
    and "modes h AND SIXTEEN_BIT \<noteq> 0"
    and "odd (length data)"
  shows "read_sample g = Inl StructError \<and> read file = Inl StructError"
proof -
  have "read_sample g = Inl StructError"
    using assms(4,5,6,7) by (rule read_sample_odd)
  moreover from this have "read file = Inl StructError"
    by (rule read_raises_at_sample [OF assms(1,2,3)])
  ultimately show ?thesis by simp
qed

theorem odd_16bit_payload_raises_witness:
  "let file = patch_header 1 @ sample_record 3 1 [7, 7, 7];
       g = \<lparr>buf = file, pos = 239\<rparr>;
       h = blank_info\<lparr>data_length := 3, modes := 1\<rparr>;
       g1 = \<lparr>buf = file, pos = 335\<rparr>;
       g2 = \<lparr>buf = file, pos = 338\<rparr>
   in (take 11 file = magic110 \<or> take 11 file = magic100)
      \<and> 0 < nat (from_bytes_little (take 1 (drop 198 file)))
      \<and> read_samples 0 \<lparr>buf = file, pos = 239\<rparr> [] = Inr ([], g)
      \<and> read_sample_header g = (h, g1)
      \<and> f_read (nat (data_length h)) g1 = ([7, 7, 7], g2)
      \<and> modes h AND SIXTEEN_BIT \<noteq> 0
      \<and> odd (length [7, 7, 7 :: byte])
      \<and> read_sample g = Inl StructError
      \<and> read file = Inl StructError"
proof -
  let ?data = "[7, 7, 7] :: byte list"
  let ?file = "patch_header 1 @ sample_record 3 1 ?data"
  let ?g = "\<lparr>buf = ?file, pos = 239\<rparr>"
  let ?h = "blank_info\<lparr>data_length := 3, modes := 1\<rparr>"
  let ?g1 = "\<lparr>buf = ?file, pos = 335\<rparr>"
  let ?g2 = "\<lparr>buf = ?file, pos = 338\<rparr>"
  have a: "take 11 ?file = magic110 \<or> take 11 ?file = magic100"
    by (simp only: patch_header_magic) simp
  have b: "0 < nat (from_bytes_little (take 1 (drop 198 ?file)))"
    by (simp only: patch_header_count) simp
  have c: "read_samples 0 \<lparr>buf = ?file, pos = 239\<rparr> [] = Inr ([], ?g)"
    by simp
  have d: "read_sample_header ?g = (?h, ?g1)"
    using read_sample_header_record [of "patch_header 1" 3 1 ?data]
    by (simp add: length_patch_header)
  have e: "f_read (nat (data_length ?h)) ?g1 = (?data, ?g2)"
    using f_read_record [of 3 "patch_header 1" 3 1 ?data]
    by (simp add: length_patch_header)
  have f: "modes ?h AND SIXTEEN_BIT \<noteq> 0"
    by (simp add: SIXTEEN_BIT_def)
  have g: "odd (length ?data)"
    by simp
  from odd_16bit_payload_raises [OF a b c d e f g]
  have r: "read_sample ?g = Inl StructError" and s: "read ?file = Inl StructError"
    by blast+
  show ?thesis
    unfolding Let_def using a b c d e f g r s by (intro conjI)
qed

end
